theory Spec2Isabelle
  imports Complex_Main
begin

section \<open>Snapshotter: data model\<close>

text \<open>
  The Snapshotter class keeps three arrays of snapshots (CPU, event loop, memory), appends to
  them from timer callbacks and hands them out through three read accessors.

  Conventions of the embedding:
  \<^item> a \<open>Date\<close> is its time value, an integer number of milliseconds (\<open>int\<close>); the difference
    of two dates is a number;
  \<^item> every other JavaScript number is an exact rational (\<open>rat\<close>): the arithmetic of the class
    is modelled without the rounding of doubles, and the configured numbers are finite.
    The one operation that leaves the finite numbers, the division by \<open>maxMemoryBytes\<close>,
    has its zero and \<open>undefined\<close> cases written out. Where a property is about the very
    value of a product or a difference, the constructor and the event-loop tick are taken
    again with the rounding written out (\<open>Snapshotter_fl\<close>, \<open>snapshotEventLoop_fl\<close>);
  \<^item> arrays are mutable and are handed out by reference, so they live in a store indexed by
    array identity; the three history fields are assigned once, in the constructor, and are
    identified with the arrays they hold;
  \<^item> an exception is a value: a statement that may throw returns \<open>error + 'a\<close> together with
    the state reached when it threw;
  \<^item> what the class does to the outside (log lines, the interval callback, timers and event
    subscriptions) is recorded in a trace.
\<close>

datatype error = TypeError | ProbeError string

record memoryInfo =
  mainProcessBytes :: rat
  childProcessesBytes :: rat
  totalBytes :: rat

datatype snapshot =
    CpuSnapshot (createdAt: int) (isOverloaded: bool)
  | EventLoopSnapshot (createdAt: int) (isOverloaded: bool) (exceededMillis: rat)
  | MemorySnapshot (createdAt: int) (isOverloaded: bool) (memInfo: memoryInfo)

datatype array_ref = CpuSnapshots | EventLoopSnapshots | MemorySnapshots | Sample nat

datatype timer = EventLoopInterval | MemoryInterval

datatype effect =
    LogException error string
  | IntervalCallback
  | SetInterval timer rat
  | ClearInterval timer
  | EventsOnCpuInfo
  | EventsRemoveCpuInfo

record cpuInfoEvent =
  cpuCreatedAt :: int
  isCpuOverloaded :: bool

record options =
  eventLoopSnapshotIntervalSecs :: "rat option"
  memorySnapshotIntervalSecs :: "rat option"
  snapshotHistorySecs :: "rat option"
  maxBlockedRatio :: "rat option"
  minFreeMemoryRatio_opt :: "rat option"
  maxMemoryMbytes :: "rat option"

record snapshotter =
  eventLoopSnapshotIntervalMillis :: rat
  memorySnapshotIntervalMillis :: rat
  snapshotHistoryMillis :: rat
  maxBlockedMillis :: rat
  minFreeMemoryRatio :: rat
  maxMemoryBytes :: "rat option"
  heap :: "array_ref \<Rightarrow> snapshot list"
  nextSample :: nat
  trace :: "effect list"

type_synonym 'a prog = "snapshotter \<Rightarrow> (error + 'a) \<times> snapshotter"

section \<open>JavaScript primitives used by the class\<close>

text \<open>\<open>xs[i]\<close> is \<open>undefined\<close> outside the array.\<close>

definition js_index :: "'a list \<Rightarrow> int \<Rightarrow> 'a option" where
  "js_index xs i = (if 0 \<le> i \<and> i < int (length xs) then Some (xs ! nat i) else None)"

text \<open>Reading \<open>createdAt\<close> (by property access or by destructuring) throws on \<open>undefined\<close>.\<close>

definition getCreatedAt :: "snapshot option \<Rightarrow> error + int" where
  "getCreatedAt x = (case x of None \<Rightarrow> Inl TypeError | Some e \<Rightarrow> Inr (createdAt e))"

text \<open>A number is falsy when it is \<open>undefined\<close> or zero.\<close>

definition falsy :: "rat option \<Rightarrow> bool" where
  "falsy x = (case x of None \<Rightarrow> True | Some v \<Rightarrow> v = 0)"

text \<open>
  \<open>a / b > c\<close> where \<open>b\<close> may be \<open>undefined\<close> or zero: \<open>a / undefined\<close> and \<open>0 / 0\<close> are
  \<open>NaN\<close>, which is greater than nothing; a positive number over zero is \<open>Infinity\<close> and a
  negative one \<open>-Infinity\<close>.
\<close>

definition js_div_gt :: "rat \<Rightarrow> rat option \<Rightarrow> rat \<Rightarrow> bool" where
  "js_div_gt a b c =
     (case b of
        None \<Rightarrow> False
      | Some m \<Rightarrow> if m = 0 then 0 < a else c < a / m)"

definition push :: "array_ref \<Rightarrow> snapshot \<Rightarrow> snapshotter \<Rightarrow> snapshotter" where
  "push r x s = s\<lparr>heap := (heap s)(r := heap s r @ [x])\<rparr>"

definition unshift :: "array_ref \<Rightarrow> snapshot \<Rightarrow> snapshotter \<Rightarrow> snapshotter" where
  "unshift r x s = s\<lparr>heap := (heap s)(r := x # heap s r)\<rparr>"

text \<open>\<open>splice(0, n)\<close> removes the first \<open>n\<close> elements in place.\<close>

definition splice0 :: "array_ref \<Rightarrow> nat \<Rightarrow> snapshotter \<Rightarrow> snapshotter" where
  "splice0 r n s = s\<lparr>heap := (heap s)(r := drop n (heap s r))\<rparr>"

text \<open>The array literal \<open>[]\<close> allocates a fresh, empty array.\<close>

definition newArray :: "snapshotter \<Rightarrow> array_ref \<times> snapshotter" where
  "newArray s =
     (Sample (nextSample s),
      s\<lparr>heap := (heap s)(Sample (nextSample s) := []), nextSample := nextSample s + 1\<rparr>)"

definition emit :: "effect \<Rightarrow> snapshotter \<Rightarrow> snapshotter" where
  "emit e s = s\<lparr>trace := trace s @ [e]\<rparr>"

text \<open>\<open>log.exception\<close> writes a line and returns.\<close>

definition logException :: "error \<Rightarrow> string \<Rightarrow> unit prog" where
  "logException err msg s = (Inr (), emit (LogException err msg) s)"

text \<open>
  The interval callback is the function \<open>betterSetInterval\<close> passes to its handler; calling
  it schedules the next run of the handler.
\<close>

definition intervalCallback :: "unit prog" where
  "intervalCallback s = (Inr (), emit IntervalCallback s)"

text \<open>
  \<open>try { body } catch (err) { handler } finally { fin }\<close>: the handler runs when the body
  throws, \<open>fin\<close> runs in every case, and the statement throws what the handler or \<open>fin\<close>
  throws.
\<close>

definition tryCatchFinally :: "unit prog \<Rightarrow> (error \<Rightarrow> unit prog) \<Rightarrow> unit prog \<Rightarrow> unit prog" where
  "tryCatchFinally body handler fin s =
     (case body s of (r1, s1) \<Rightarrow>
        (case (case r1 of Inl err \<Rightarrow> handler err s1 | Inr u \<Rightarrow> (Inr u, s1)) of (r2, s2) \<Rightarrow>
           (case fin s2 of (r3, s3) \<Rightarrow>
              (case r3 of Inl err \<Rightarrow> (Inl err, s3) | Inr u \<Rightarrow> (r2, s3)))))"

section \<open>Snapshotter: operations\<close>

definition DEFAULT_OPTIONS :: options where
  "DEFAULT_OPTIONS =
     \<lparr> eventLoopSnapshotIntervalSecs = Some (1 / 2),
       memorySnapshotIntervalSecs = Some 1,
       snapshotHistorySecs = Some 60,
       maxBlockedRatio = Some (1 / 10),
       minFreeMemoryRatio_opt = Some (7 / 10),
       maxMemoryMbytes = None \<rparr>"

text \<open>\<open>_.defaults\<close> fills in the properties that are \<open>undefined\<close>.\<close>

definition default_of :: "rat option \<Rightarrow> rat option \<Rightarrow> rat option" where
  "default_of x d = (case x of None \<Rightarrow> d | Some v \<Rightarrow> Some v)"

definition defaults :: "options \<Rightarrow> options \<Rightarrow> options" where
  "defaults opts d =
     \<lparr> eventLoopSnapshotIntervalSecs =
         default_of (eventLoopSnapshotIntervalSecs opts) (eventLoopSnapshotIntervalSecs d),
       memorySnapshotIntervalSecs =
         default_of (memorySnapshotIntervalSecs opts) (memorySnapshotIntervalSecs d),
       snapshotHistorySecs = default_of (snapshotHistorySecs opts) (snapshotHistorySecs d),
       maxBlockedRatio = default_of (maxBlockedRatio opts) (maxBlockedRatio d),
       minFreeMemoryRatio_opt = default_of (minFreeMemoryRatio_opt opts) (minFreeMemoryRatio_opt d),
       maxMemoryMbytes = default_of (maxMemoryMbytes opts) (maxMemoryMbytes d) \<rparr>"

text \<open>
  The constructor. After \<open>defaults\<close> the five required options are numbers, so the
  \<open>checkParamOrThrow\<close> calls pass; \<open>the\<close> is applied only to those five.
\<close>

definition Snapshotter :: "options \<Rightarrow> snapshotter" where
  "Snapshotter options0 =
     (let opts = defaults options0 DEFAULT_OPTIONS in
      \<lparr> eventLoopSnapshotIntervalMillis = the (eventLoopSnapshotIntervalSecs opts) * 1000,
        memorySnapshotIntervalMillis = the (memorySnapshotIntervalSecs opts) * 1000,
        snapshotHistoryMillis = the (snapshotHistorySecs opts) * 1000,
        maxBlockedMillis = 1000 * the (eventLoopSnapshotIntervalSecs opts) * the (maxBlockedRatio opts),
        minFreeMemoryRatio = the (minFreeMemoryRatio_opt opts),
        maxMemoryBytes =
          (if falsy (maxMemoryMbytes opts) then None
           else Some (the (maxMemoryMbytes opts) * 1024 * 1024)),
        heap = (\<lambda>r. []),
        nextSample = 0,
        trace = [] \<rparr>)"

text \<open>
  \<open>start\<close>: \<open>probe\<close> is what \<open>getMemoryInfo()\<close> yields if it is called, \<open>atHome\<close> what
  \<open>isAtHome()\<close> returns, \<open>now\<close> the value of \<open>new Date()\<close>.
\<close>

definition start :: "(error + memoryInfo) \<Rightarrow> bool \<Rightarrow> int \<Rightarrow> unit prog" where
  "start probe atHome now s =
     (case (if falsy (maxMemoryBytes s) then
              (case probe of
                 Inl err \<Rightarrow> Inl err
               | Inr mi \<Rightarrow>
                   Inr (s\<lparr>maxMemoryBytes :=
                            Some (if atHome then totalBytes mi
                                  else of_int \<lceil>totalBytes mi / 4\<rceil>)\<rparr>))
            else Inr s) of
        Inl err \<Rightarrow> (Inl err, s)
      | Inr s1 \<Rightarrow>
          (let s2 = push EventLoopSnapshots (EventLoopSnapshot now False 0) s1;
               s3 = emit (SetInterval EventLoopInterval (eventLoopSnapshotIntervalMillis s2)) s2;
               s4 = emit (SetInterval MemoryInterval (memorySnapshotIntervalMillis s3)) s3;
               s5 = (if atHome then emit EventsOnCpuInfo s4 else s4)
           in (Inr (), s5)))"

definition stop :: "bool \<Rightarrow> unit prog" where
  "stop atHome s =
     (let s1 = emit (ClearInterval EventLoopInterval) s;
          s2 = emit (ClearInterval MemoryInterval) s1;
          s3 = (if atHome then emit EventsRemoveCpuInfo s2 else s2)
      in (Inr (), s3))"

text \<open>
  The loop of \<open>_getSample\<close>: \<open>while (idx--)\<close> tests \<open>idx\<close>, decrements it and runs the body
  with the decremented value.
\<close>

fun getSampleLoop :: "array_ref \<Rightarrow> array_ref \<Rightarrow> int \<Rightarrow> rat \<Rightarrow> nat \<Rightarrow> unit prog" where
  "getSampleLoop snapshots sample latestTime sampleDurationMillis 0 s = (Inr (), s)"
| "getSampleLoop snapshots sample latestTime sampleDurationMillis (Suc idx) s =
     (case js_index (heap s snapshots) (int idx) of
        None \<Rightarrow> (Inl TypeError, s)
      | Some snapshot \<Rightarrow>
          if of_int (latestTime - createdAt snapshot) \<le> sampleDurationMillis
          then getSampleLoop snapshots sample latestTime sampleDurationMillis idx
                 (unshift sample snapshot s)
          else (Inr (), s))"

definition getSample :: "array_ref \<Rightarrow> rat option \<Rightarrow> array_ref prog" where
  "getSample snapshots sampleDurationMillis s =
     (if falsy sampleDurationMillis then (Inr snapshots, s)
      else
        (case newArray s of (sample, s1) \<Rightarrow>
           (let idx = length (heap s1 snapshots) in
            if idx = 0 then (Inr sample, s1)
            else
              (case getCreatedAt (js_index (heap s1 snapshots) (int idx - 1)) of
                 Inl err \<Rightarrow> (Inl err, s1)
               | Inr latestTime \<Rightarrow>
                   (case getSampleLoop snapshots sample latestTime
                           (the sampleDurationMillis) idx s1 of
                      (Inl err, s2) \<Rightarrow> (Inl err, s2)
                    | (Inr u, s2) \<Rightarrow> (Inr sample, s2))))))"

definition getMemorySample :: "rat option \<Rightarrow> array_ref prog" where
  "getMemorySample sampleDurationMillis = getSample MemorySnapshots sampleDurationMillis"

definition getEventLoopSample :: "rat option \<Rightarrow> array_ref prog" where
  "getEventLoopSample sampleDurationMillis = getSample EventLoopSnapshots sampleDurationMillis"

definition getCpuSample :: "rat option \<Rightarrow> array_ref prog" where
  "getCpuSample sampleDurationMillis = getSample CpuSnapshots sampleDurationMillis"

text \<open>The counting loop of \<open>_pruneSnapshots\<close>, from \<open>i\<close> and \<open>oldCount\<close> on.\<close>

function pruneLoop :: "rat \<Rightarrow> int \<Rightarrow> snapshot list \<Rightarrow> nat \<Rightarrow> nat \<Rightarrow> error + nat" where
  "pruneLoop historyMillis now snapshots i oldCount =
     (if i < length snapshots then
        (case getCreatedAt (js_index snapshots (int i)) of
           Inl err \<Rightarrow> Inl err
         | Inr c \<Rightarrow>
             if historyMillis < of_int (now - c)
             then pruneLoop historyMillis now snapshots (i + 1) (oldCount + 1)
             else Inr oldCount)
      else Inr oldCount)"
  by pat_completeness auto
termination
  by (relation "measure (\<lambda>(h, n, xs, i, c). length xs - i)") auto

declare pruneLoop.simps [simp del]

definition pruneSnapshots :: "array_ref \<Rightarrow> int \<Rightarrow> unit prog" where
  "pruneSnapshots snapshots now s =
     (case pruneLoop (snapshotHistoryMillis s) now (heap s snapshots) 0 0 of
        Inl err \<Rightarrow> (Inl err, s)
      | Inr oldCount \<Rightarrow> (Inr (), splice0 snapshots oldCount s))"

text \<open>
  The \<open>try\<close> block of \<open>_snapshotMemory\<close>; \<open>probe\<close> is what \<open>await getMemoryInfo()\<close> yields,
  a thrown error or the measurement.
\<close>

definition snapshotMemory_try :: "int \<Rightarrow> (error + memoryInfo) \<Rightarrow> unit prog" where
  "snapshotMemory_try now probe s =
     (case probe of
        Inl err \<Rightarrow> (Inl err, s)
      | Inr mi \<Rightarrow>
          (case pruneSnapshots MemorySnapshots now s of
             (Inl err, s1) \<Rightarrow> (Inl err, s1)
           | (Inr u, s1) \<Rightarrow>
               (let usedBytes = mainProcessBytes mi + childProcessesBytes mi;
                    snapshot = MemorySnapshot now
                      (js_div_gt usedBytes (maxMemoryBytes s1) (minFreeMemoryRatio s1)) mi
                in (Inr (), push MemorySnapshots snapshot s1))))"

definition snapshotMemory :: "int \<Rightarrow> (error + memoryInfo) \<Rightarrow> unit prog" where
  "snapshotMemory now probe =
     tryCatchFinally (snapshotMemory_try now probe)
       (\<lambda>err. logException err ''Snapshotter: Memory snapshot failed.'')
       intervalCallback"

text \<open>The \<open>try\<close> block of \<open>_snapshotEventLoop\<close>.\<close>

definition snapshotEventLoop_try :: "int \<Rightarrow> unit prog" where
  "snapshotEventLoop_try now s =
     (case pruneSnapshots EventLoopSnapshots now s of
        (Inl err, s1) \<Rightarrow> (Inl err, s1)
      | (Inr u, s1) \<Rightarrow>
          (case getCreatedAt (js_index (heap s1 EventLoopSnapshots)
                  (int (length (heap s1 EventLoopSnapshots)) - 1)) of
             Inl err \<Rightarrow> (Inl err, s1)
           | Inr c \<Rightarrow>
               (let delta = of_int (now - c) - eventLoopSnapshotIntervalMillis s1;
                    snapshot = EventLoopSnapshot now
                      (if maxBlockedMillis s1 < delta then True else False)
                      (max (delta - maxBlockedMillis s1) 0)
                in (Inr (), push EventLoopSnapshots snapshot s1))))"

definition snapshotEventLoop :: "int \<Rightarrow> unit prog" where
  "snapshotEventLoop now =
     tryCatchFinally (snapshotEventLoop_try now)
       (\<lambda>err. logException err ''Snapshotter: Event Loop snapshot failed.'')
       intervalCallback"

definition snapshotCpu :: "cpuInfoEvent \<Rightarrow> unit prog" where
  "snapshotCpu ev s =
     (case pruneSnapshots CpuSnapshots (cpuCreatedAt ev) s of
        (Inl err, s1) \<Rightarrow> (Inl err, s1)
      | (Inr u, s1) \<Rightarrow>
          (Inr (), push CpuSnapshots (CpuSnapshot (cpuCreatedAt ev) (isCpuOverloaded ev)) s1))"

text \<open>
  The public surface of the class as a datatype of calls, and their effect on the state.
  A call that throws leaves the state it had reached; the process goes on.
\<close>

datatype operation =
    Start "error + memoryInfo" bool int
  | Stop bool
  | GetMemorySample "rat option"
  | GetEventLoopSample "rat option"
  | GetCpuSample "rat option"
  | SnapshotMemory int "error + memoryInfo"
  | SnapshotEventLoop int
  | SnapshotCpu cpuInfoEvent

fun step :: "operation \<Rightarrow> snapshotter \<Rightarrow> snapshotter" where
  "step (Start probe atHome now) s = snd (start probe atHome now s)"
| "step (Stop atHome) s = snd (stop atHome s)"
| "step (GetMemorySample d) s = snd (getMemorySample d s)"
| "step (GetEventLoopSample d) s = snd (getEventLoopSample d s)"
| "step (GetCpuSample d) s = snd (getCpuSample d s)"
| "step (SnapshotMemory now probe) s = snd (snapshotMemory now probe s)"
| "step (SnapshotEventLoop now) s = snd (snapshotEventLoop now s)"
| "step (SnapshotCpu ev) s = snd (snapshotCpu ev s)"

definition run :: "operation list \<Rightarrow> snapshotter \<Rightarrow> snapshotter" where
  "run ops s = fold step ops s"

text \<open>Each read accessor with the history it reads.\<close>

definition accessors :: "((rat option \<Rightarrow> array_ref prog) \<times> array_ref) list" where
  "accessors =
     [(getMemorySample, MemorySnapshots),
      (getEventLoopSample, EventLoopSnapshots),
      (getCpuSample, CpuSnapshots)]"

definition histories :: "array_ref list" where
  "histories = [CpuSnapshots, EventLoopSnapshots, MemorySnapshots]"

section \<open>The rounding of doubles, written out\<close>

text \<open>
  The definitions above compute with exact rationals. Where a property depends on the value
  that a product or a difference has as a double, the constructor and the event-loop tick
  are taken with the rounding written out: every arithmetic operation returns \<open>fl\<close> of its
  exact result, \<open>fl\<close> being the rounding of a number to the double JavaScript returns.
  Comparisons and \<open>Math.max\<close> do not round. Nothing is assumed of \<open>fl\<close>; with the identity
  for \<open>fl\<close> these are the definitions above.
\<close>

definition Snapshotter_fl :: "(rat \<Rightarrow> rat) \<Rightarrow> options \<Rightarrow> snapshotter" where
  "Snapshotter_fl fl options0 =
     (let opts = defaults options0 DEFAULT_OPTIONS in
      \<lparr> eventLoopSnapshotIntervalMillis = fl (the (eventLoopSnapshotIntervalSecs opts) * 1000),
        memorySnapshotIntervalMillis = fl (the (memorySnapshotIntervalSecs opts) * 1000),
        snapshotHistoryMillis = fl (the (snapshotHistorySecs opts) * 1000),
        maxBlockedMillis =
          fl (fl (1000 * the (eventLoopSnapshotIntervalSecs opts)) * the (maxBlockedRatio opts)),
        minFreeMemoryRatio = the (minFreeMemoryRatio_opt opts),
        maxMemoryBytes =
          (if falsy (maxMemoryMbytes opts) then None
           else Some (fl (fl (the (maxMemoryMbytes opts) * 1024) * 1024))),
        heap = (\<lambda>r. []),
        nextSample = 0,
        trace = [] \<rparr>)"

definition snapshotEventLoop_fl_try :: "(rat \<Rightarrow> rat) \<Rightarrow> int \<Rightarrow> unit prog" where
  "snapshotEventLoop_fl_try fl now s =
     (case pruneSnapshots EventLoopSnapshots now s of
        (Inl err, s1) \<Rightarrow> (Inl err, s1)
      | (Inr u, s1) \<Rightarrow>
          (case getCreatedAt (js_index (heap s1 EventLoopSnapshots)
                  (int (length (heap s1 EventLoopSnapshots)) - 1)) of
             Inl err \<Rightarrow> (Inl err, s1)
           | Inr c \<Rightarrow>
               (let delta = fl (fl (of_int (now - c)) - eventLoopSnapshotIntervalMillis s1);
                    snapshot = EventLoopSnapshot now
                      (if maxBlockedMillis s1 < delta then True else False)
                      (max (fl (delta - maxBlockedMillis s1)) 0)
                in (Inr (), push EventLoopSnapshots snapshot s1))))"

definition snapshotEventLoop_fl :: "(rat \<Rightarrow> rat) \<Rightarrow> int \<Rightarrow> unit prog" where
  "snapshotEventLoop_fl fl now =
     tryCatchFinally (snapshotEventLoop_fl_try fl now)
       (\<lambda>err. logException err ''Snapshotter: Event Loop snapshot failed.'')
       intervalCallback"

section \<open>AutoscaledPool\<close>

text \<open>
  Modelled from the spec: the state of the AutoscaledPool class
  (\<open>autoscaling/autoscaled_pool\<close>), of which the sources have only the import and the type
  name; the fields are those of the spec's data model, with the internal count of ticks
  since the last scale-up that its autoscaling algorithm names.
\<close>

record autoscaledPool =
  desiredConcurrency :: int
  currentlyRunningCount :: int
  minConcurrency :: int
  maxConcurrency :: int
  isPaused :: bool
  isStopped :: bool
  ticksSinceScaleUp :: nat

text \<open>
  Modelled from the spec: the constructor of AutoscaledPool; the pool is created with a
  starting concurrency equal to \<open>minConcurrency\<close>, nothing running, neither paused nor
  stopped.
\<close>

definition AutoscaledPool :: "int \<Rightarrow> int \<Rightarrow> autoscaledPool" where
  "AutoscaledPool minC maxC =
     \<lparr> desiredConcurrency = minC,
       currentlyRunningCount = 0,
       minConcurrency = minC,
       maxConcurrency = maxC,
       isPaused = False,
       isStopped = False,
       ticksSinceScaleUp = 0 \<rparr>"

text \<open>
  Modelled from the spec: the autoscaling evaluation of AutoscaledPool. \<open>idleShort\<close> and
  \<open>idleHistorical\<close> are the verdicts of \<open>SystemStatus.isSystemIdle\<close> at the two windows,
  \<open>demand\<close> the evidence of ready work. The spec leaves the step sizes and the length of
  the suppression open (tunable policy), so they are arguments: any amounts will do.
  Not idle: decrease by the step, floor at \<open>minConcurrency\<close>, reset the counter. Idle at
  both windows, suppression elapsed and demand: increase by the step, ceiling at
  \<open>maxConcurrency\<close>. Otherwise the target stays.
\<close>

definition autoscale :: "bool \<Rightarrow> bool \<Rightarrow> bool \<Rightarrow> nat \<Rightarrow> nat \<Rightarrow> nat \<Rightarrow> autoscaledPool \<Rightarrow> autoscaledPool" where
  "autoscale idleShort idleHistorical demand scaleDownStep scaleUpStep suppressionTicks p =
     (if isStopped p then p
      else if \<not> idleShort then
        p\<lparr>desiredConcurrency := max (minConcurrency p) (desiredConcurrency p - int scaleDownStep),
          ticksSinceScaleUp := 0\<rparr>
      else if idleHistorical \<and> suppressionTicks \<le> ticksSinceScaleUp p \<and> demand then
        p\<lparr>desiredConcurrency := min (maxConcurrency p) (desiredConcurrency p + int scaleUpStep),
          ticksSinceScaleUp := 0\<rparr>
      else p\<lparr>ticksSinceScaleUp := ticksSinceScaleUp p + 1\<rparr>)"

text \<open>
  Modelled from the spec: what can happen to an AutoscaledPool after its construction: an
  autoscaling tick, an attempt of the task-execution loop to launch a task (with the answer
  of \<open>isTaskReadyFunction\<close>), the completion of a task, pause, resume and abort.
\<close>

datatype poolEvent =
    AutoscaleTick bool bool bool nat nat nat
  | TaskLaunch bool
  | TaskComplete
  | Pause
  | Resume
  | Abort

text \<open>
  Modelled from the spec: the effect of each event on the AutoscaledPool. A task is launched
  while the pool runs, \<open>currentlyRunningCount < desiredConcurrency\<close> and a task is ready;
  a completion decrements the count; tasks in flight are not pre-empted.
\<close>

fun poolStep :: "poolEvent \<Rightarrow> autoscaledPool \<Rightarrow> autoscaledPool" where
  "poolStep (AutoscaleTick idleShort idleHistorical demand down up suppression) p =
     autoscale idleShort idleHistorical demand down up suppression p"
| "poolStep (TaskLaunch ready) p =
     (if \<not> isStopped p \<and> \<not> isPaused p \<and> ready
         \<and> currentlyRunningCount p < desiredConcurrency p
      then p\<lparr>currentlyRunningCount := currentlyRunningCount p + 1\<rparr> else p)"
| "poolStep TaskComplete p = p\<lparr>currentlyRunningCount := currentlyRunningCount p - 1\<rparr>"
| "poolStep Pause p = p\<lparr>isPaused := True\<rparr>"
| "poolStep Resume p = p\<lparr>isPaused := False\<rparr>"
| "poolStep Abort p = p\<lparr>isStopped := True\<rparr>"

text \<open>
  Modelled from the spec: a run of the AutoscaledPool, any interleaving of the events above.
\<close>

definition poolRun :: "poolEvent list \<Rightarrow> autoscaledPool \<Rightarrow> autoscaledPool" where
  "poolRun evs p = fold poolStep evs p"

section \<open>Vocabulary of the properties\<close>

text \<open>The test of the pruning loop: the entry is older than the history window at \<open>now\<close>.\<close>

definition isOld :: "rat \<Rightarrow> int \<Rightarrow> snapshot \<Rightarrow> bool" where
  "isOld historyMillis now e = (historyMillis < of_int (now - createdAt e))"

text \<open>The test of the sampling loop: the entry lies within \<open>d\<close> milliseconds of \<open>latestTime\<close>.\<close>

definition isRecent :: "int \<Rightarrow> rat \<Rightarrow> snapshot \<Rightarrow> bool" where
  "isRecent latestTime d e = (of_int (latestTime - createdAt e) \<le> d)"

text \<open>The \<open>createdAt\<close> values of a history, in array order, never decrease.\<close>

definition nonDecreasing :: "snapshot list \<Rightarrow> bool" where
  "nonDecreasing xs = sorted (map createdAt xs)"

text \<open>
  No entry is older than \<open>historyMillis\<close> relative to the newest entry, the one at the end
  of the array.
\<close>

definition noneOlderThan :: "rat \<Rightarrow> snapshot list \<Rightarrow> bool" where
  "noneOlderThan historyMillis xs =
     list_all (\<lambda>e. of_int (createdAt (last xs) - createdAt e) \<le> historyMillis) xs"

text \<open>Consecutive entries are at least \<open>interval\<close> milliseconds apart.\<close>

definition spacedAtLeast :: "rat \<Rightarrow> snapshot list \<Rightarrow> bool" where
  "spacedAtLeast interval xs =
     successively (\<lambda>a b. interval \<le> of_int (createdAt b - createdAt a)) xs"

text \<open>An event-loop snapshot that is flagged overloaded exactly when it exceeded.\<close>

definition flaggedIffExceeded :: "snapshot \<Rightarrow> bool" where
  "flaggedIffExceeded e =
     (case e of
        EventLoopSnapshot t ov ex \<Rightarrow> ov = (0 < ex)
      | _ \<Rightarrow> False)"

text \<open>
  What a caller of a read accessor gets: the elements of the returned array, read in the state
  after the call, or the error thrown.
\<close>

definition returned :: "array_ref prog \<Rightarrow> snapshotter \<Rightarrow> error + snapshot list" where
  "returned f s = (case f s of (Inl err, s') \<Rightarrow> Inl err | (Inr r, s') \<Rightarrow> Inr (heap s' r))"

text \<open>
  The longest suffix of a history all of whose entries lie within \<open>d\<close> milliseconds of its
  last entry.
\<close>

definition recentSuffix :: "rat \<Rightarrow> snapshot list \<Rightarrow> snapshot list" where
  "recentSuffix d xs = rev (takeWhile (isRecent (createdAt (last xs)) d) (rev xs))"

definition isStart :: "operation \<Rightarrow> bool" where
  "isStart op = (case op of Start probe atHome now \<Rightarrow> True | _ \<Rightarrow> False)"

definition isSampling :: "operation \<Rightarrow> bool" where
  "isSampling op =
     (case op of
        SnapshotMemory now probe \<Rightarrow> True
      | SnapshotEventLoop now \<Rightarrow> True
      | SnapshotCpu ev \<Rightarrow> True
      | _ \<Rightarrow> False)"

section \<open>Concrete inputs\<close>

text \<open>
  A snapshotter with a one-second history, a 100 ms event-loop interval (so 10 ms of allowed
  blocking), a configured memory ratio of 1/4 and one megabyte of memory; all of these
  numbers are exact as doubles too.
\<close>

definition exampleOptions :: options where
  "exampleOptions =
     \<lparr> eventLoopSnapshotIntervalSecs = Some (1 / 10),
       memorySnapshotIntervalSecs = None,
       snapshotHistorySecs = Some 1,
       maxBlockedRatio = None,
       minFreeMemoryRatio_opt = Some (1 / 4),
       maxMemoryMbytes = Some 1 \<rparr>"

definition exampleSnapshotter :: snapshotter where
  "exampleSnapshotter = Snapshotter exampleOptions"

text \<open>A measurement with half of the megabyte in use.\<close>

definition halfUsed :: memoryInfo where
  "halfUsed = \<lparr> mainProcessBytes = 262144, childProcessesBytes = 262144, totalBytes = 2097152 \<rparr>"

text \<open>The example snapshotter after \<open>start()\<close> at time 0, away from the platform.\<close>

definition startedSnapshotter :: snapshotter where
  "startedSnapshotter = snd (start (Inr halfUsed) False 0 exampleSnapshotter)"

text \<open>An event-loop history after \<open>start()\<close> at 0 and ticks at 100, 200 and 300.\<close>

definition tickingSnapshotter :: snapshotter where
  "tickingSnapshotter =
     run [SnapshotEventLoop 100, SnapshotEventLoop 200, SnapshotEventLoop 300] startedSnapshotter"






section \<open>The loops in closed form\<close>

lemma js_index_in_range: "i < length xs \<Longrightarrow> js_index xs (int i) = Some (xs ! i)"
  by (simp add: js_index_def)

lemma js_index_last:
  "js_index xs (int (length xs) - 1) = (if xs = [] then None else Some (last xs))"
  by (cases "xs = []") (simp_all add: js_index_def last_conv_nth nat_diff_distrib')


lemma pruneLoop_count:
  "i \<le> length xs \<Longrightarrow>
   pruneLoop h now xs i c = Inr (c + length (takeWhile (isOld h now) (drop i xs)))"
proof (induction h now xs i c rule: pruneLoop.induct)
  case (1 h now xs i c)
  show ?case
  proof (cases "i < length xs")
    case False
    with "1.prems" show ?thesis by (subst pruneLoop.simps) simp
  next
    case True
    then have d: "drop i xs = xs ! i # drop (Suc i) xs"
      by (simp add: Cons_nth_drop_Suc)
    show ?thesis
    proof (cases "isOld h now (xs ! i)")
      case True
      then have raw: "h < of_int (now - createdAt (xs ! i))"
        by (simp add: isOld_def)
      from \<open>i < length xs\<close> raw
      have "pruneLoop h now xs i c = pruneLoop h now xs (i + 1) (c + 1)"
        by (subst pruneLoop.simps) (simp add: js_index_in_range getCreatedAt_def)
      also from \<open>i < length xs\<close> raw
      have "\<dots> = Inr (c + 1 + length (takeWhile (isOld h now) (drop (i + 1) xs)))"
        by (intro "1.IH"[of "createdAt (xs ! i)"])
          (simp_all add: js_index_in_range getCreatedAt_def)
      finally show ?thesis using d True by simp
    next
      case False
      then have raw: "\<not> h < of_int (now - createdAt (xs ! i))"
        by (simp add: isOld_def)
      from \<open>i < length xs\<close> raw have "pruneLoop h now xs i c = Inr c"
        by (subst pruneLoop.simps) (simp add: js_index_in_range getCreatedAt_def)
      with d False show ?thesis by simp
    qed
  qed
qed

lemma pruneSnapshots_eq:
  "pruneSnapshots r now s =
     (Inr (), s\<lparr>heap := (heap s)(r := dropWhile (isOld (snapshotHistoryMillis s) now) (heap s r))\<rparr>)"
  by (simp add: pruneSnapshots_def pruneLoop_count splice0_def dropWhile_eq_drop)

lemma getSampleLoop_eq:
  "sample \<noteq> snapshots \<Longrightarrow> idx \<le> length (heap s snapshots) \<Longrightarrow>
   getSampleLoop snapshots sample latestTime d idx s =
     (Inr (), s\<lparr>heap := (heap s)(sample :=
        rev (takeWhile (isRecent latestTime d) (rev (take idx (heap s snapshots)))) @ heap s sample)\<rparr>)"
proof (induction idx arbitrary: s)
  case 0
  then show ?case by simp
next
  case (Suc i)
  let ?xs = "heap s snapshots"
  from Suc.prems have i: "i < length ?xs" by simp
  then have ix: "js_index ?xs (int i) = Some (?xs ! i)"
    by (rule js_index_in_range)
  have tk: "rev (take (Suc i) ?xs) = ?xs ! i # rev (take i ?xs)"
    using i by (simp add: take_Suc_conv_app_nth)
  show ?case
  proof (cases "isRecent latestTime d (?xs ! i)")
    case False
    then have "\<not> of_int (latestTime - createdAt (?xs ! i)) \<le> d"
      by (simp add: isRecent_def)
    with ix tk False show ?thesis by simp
  next
    case True
    then have raw: "of_int (latestTime - createdAt (?xs ! i)) \<le> d"
      by (simp add: isRecent_def)
    let ?s' = "unshift sample (?xs ! i) s"
    from Suc.prems(1) have same: "heap ?s' snapshots = ?xs"
      by (simp add: unshift_def)
    have "getSampleLoop snapshots sample latestTime d (Suc i) s =
          getSampleLoop snapshots sample latestTime d i ?s'"
      using ix raw by simp
    also have "\<dots> = (Inr (), ?s'\<lparr>heap := (heap ?s')(sample :=
        rev (takeWhile (isRecent latestTime d) (rev (take i (heap ?s' snapshots)))) @ heap ?s' sample)\<rparr>)"
      using Suc.prems(1) i same by (intro Suc.IH) simp_all
    also have "\<dots> = (Inr (), s\<lparr>heap := (heap s)(sample :=
        rev (takeWhile (isRecent latestTime d) (rev (take (Suc i) ?xs))) @ heap s sample)\<rparr>)"
      using True tk same by (simp add: unshift_def)
    finally show ?thesis .
  qed
qed

lemma getSample_eq:
  assumes "snapshots \<in> {CpuSnapshots, EventLoopSnapshots, MemorySnapshots}"
  shows "getSample snapshots d s =
     (if falsy d then (Inr snapshots, s)
      else (Inr (Sample (nextSample s)),
            s\<lparr>heap := (heap s)(Sample (nextSample s) :=
                 rev (takeWhile (isRecent (createdAt (last (heap s snapshots))) (the d))
                        (rev (heap s snapshots)))),
              nextSample := nextSample s + 1\<rparr>))"
proof (cases "falsy d")
  case True
  then show ?thesis by (simp add: getSample_def)
next
  case False
  let ?r = "Sample (nextSample s)"
  let ?s1 = "s\<lparr>heap := (heap s)(?r := []), nextSample := nextSample s + 1\<rparr>"
  from assms have ne: "?r \<noteq> snapshots" by auto
  then have h1: "heap ?s1 snapshots = heap s snapshots" by simp
  show ?thesis
  proof (cases "heap s snapshots = []")
    case True
    with False h1 show ?thesis by (simp add: getSample_def newArray_def)
  next
    case nonempty: False
    let ?xs = "heap s snapshots"
    from nonempty have "js_index ?xs (int (length ?xs) - 1) = Some (last ?xs)"
      by (simp add: js_index_def last_conv_nth nat_diff_distrib')
    then have lt: "getCreatedAt (js_index ?xs (int (length ?xs) - 1)) = Inr (createdAt (last ?xs))"
      by (simp add: getCreatedAt_def)
    have loop: "getSampleLoop snapshots ?r (createdAt (last ?xs)) (the d) (length ?xs) ?s1 =
       (Inr (), ?s1\<lparr>heap := (heap ?s1)(?r :=
          rev (takeWhile (isRecent (createdAt (last ?xs)) (the d)) (rev (take (length ?xs) (heap ?s1 snapshots))))
            @ heap ?s1 ?r)\<rparr>)"
      using ne h1 by (intro getSampleLoop_eq) simp_all
    show ?thesis
      using False nonempty h1 lt loop
      by (simp add: getSample_def newArray_def)
  qed
qed

section \<open>The operations in closed form\<close>

lemma snapshotMemory_probe_ok:
  "snapshotMemory now (Inr mi) s =
     (Inr (),
      emit IntervalCallback
        (push MemorySnapshots
           (MemorySnapshot now
              (js_div_gt (mainProcessBytes mi + childProcessesBytes mi)
                 (maxMemoryBytes s) (minFreeMemoryRatio s)) mi)
           (s\<lparr>heap := (heap s)(MemorySnapshots :=
                dropWhile (isOld (snapshotHistoryMillis s) now) (heap s MemorySnapshots))\<rparr>)))"
  by (simp add: snapshotMemory_def tryCatchFinally_def snapshotMemory_try_def
      pruneSnapshots_eq intervalCallback_def Let_def)

lemma snapshotMemory_probe_fails:
  "snapshotMemory now (Inl err) s =
     (Inr (),
      emit IntervalCallback
        (emit (LogException err ''Snapshotter: Memory snapshot failed.'') s))"
  by (simp add: snapshotMemory_def tryCatchFinally_def snapshotMemory_try_def
      logException_def intervalCallback_def emit_def)

lemma snapshotMemory_other:
  "r \<noteq> MemorySnapshots \<Longrightarrow> heap (snd (snapshotMemory now probe s)) r = heap s r"
  by (cases probe) (simp_all add: snapshotMemory_probe_ok snapshotMemory_probe_fails push_def emit_def)

lemma snapshotEventLoop_eq:
  "snapshotEventLoop now s =
     (let kept = dropWhile (isOld (snapshotHistoryMillis s) now) (heap s EventLoopSnapshots);
          pruned = s\<lparr>heap := (heap s)(EventLoopSnapshots := kept)\<rparr>;
          delta = of_int (now - createdAt (last kept)) - eventLoopSnapshotIntervalMillis s
      in if kept = []
         then (Inr (), emit IntervalCallback
                 (emit (LogException TypeError ''Snapshotter: Event Loop snapshot failed.'') pruned))
         else (Inr (), emit IntervalCallback
                 (push EventLoopSnapshots
                    (EventLoopSnapshot now (maxBlockedMillis s < delta)
                       (max (delta - maxBlockedMillis s) 0)) pruned)))"
  by (simp add: snapshotEventLoop_def tryCatchFinally_def snapshotEventLoop_try_def
      pruneSnapshots_eq js_index_last getCreatedAt_def logException_def intervalCallback_def
      Let_def)

lemma snapshotEventLoop_history:
  "heap (snd (snapshotEventLoop now s)) EventLoopSnapshots =
     (let kept = dropWhile (isOld (snapshotHistoryMillis s) now) (heap s EventLoopSnapshots);
          delta = of_int (now - createdAt (last kept)) - eventLoopSnapshotIntervalMillis s
      in if kept = [] then []
         else kept @ [EventLoopSnapshot now (maxBlockedMillis s < delta)
                        (max (delta - maxBlockedMillis s) 0)])"
  by (simp add: snapshotEventLoop_eq Let_def push_def emit_def del: dropWhile_eq_Nil_conv)

text \<open>The constructor and the tick with rounding; with the identity they are the exact ones.\<close>

lemma Snapshotter_fl_id: "Snapshotter_fl (\<lambda>x. x) opts = Snapshotter opts"
  by (simp add: Snapshotter_fl_def Snapshotter_def Let_def)

lemma snapshotEventLoop_fl_eq:
  "snapshotEventLoop_fl fl now s =
     (let kept = dropWhile (isOld (snapshotHistoryMillis s) now) (heap s EventLoopSnapshots);
          pruned = s\<lparr>heap := (heap s)(EventLoopSnapshots := kept)\<rparr>;
          delta = fl (fl (of_int (now - createdAt (last kept))) - eventLoopSnapshotIntervalMillis s)
      in if kept = []
         then (Inr (), emit IntervalCallback
                 (emit (LogException TypeError ''Snapshotter: Event Loop snapshot failed.'') pruned))
         else (Inr (), emit IntervalCallback
                 (push EventLoopSnapshots
                    (EventLoopSnapshot now (maxBlockedMillis s < delta)
                       (max (fl (delta - maxBlockedMillis s)) 0)) pruned)))"
  by (simp add: snapshotEventLoop_fl_def tryCatchFinally_def snapshotEventLoop_fl_try_def
      pruneSnapshots_eq js_index_last getCreatedAt_def logException_def intervalCallback_def
      Let_def)

lemma snapshotEventLoop_fl_id: "snapshotEventLoop_fl (\<lambda>x. x) now s = snapshotEventLoop now s"
  by (simp add: snapshotEventLoop_fl_eq snapshotEventLoop_eq)

lemma snapshotCpu_eq:
  "snapshotCpu ev s =
     (Inr (),
      push CpuSnapshots (CpuSnapshot (cpuCreatedAt ev) (isCpuOverloaded ev))
        (s\<lparr>heap := (heap s)(CpuSnapshots :=
             dropWhile (isOld (snapshotHistoryMillis s) (cpuCreatedAt ev)) (heap s CpuSnapshots))\<rparr>))"
  by (simp add: snapshotCpu_def pruneSnapshots_eq)

lemma snapshotCpu_other:
  "r \<noteq> CpuSnapshots \<Longrightarrow> heap (snd (snapshotCpu ev s)) r = heap s r"
  by (simp add: snapshotCpu_eq push_def)

lemma start_history:
  "heap (snd (start probe atHome now s)) EventLoopSnapshots = heap s EventLoopSnapshots \<or>
   heap (snd (start probe atHome now s)) EventLoopSnapshots =
     heap s EventLoopSnapshots @ [EventLoopSnapshot now False 0]"
  by (simp add: start_def push_def emit_def Let_def split: sum.splits)

lemma stop_frame: "heap (snd (stop atHome s)) = heap s"
  by (simp add: stop_def emit_def Let_def)

lemma accessors_cases:
  "(acc, r) \<in> set accessors \<Longrightarrow>
     acc = getSample r \<and> r \<in> {CpuSnapshots, EventLoopSnapshots, MemorySnapshots}"
  by (auto simp: accessors_def getMemorySample_def getEventLoopSample_def getCpuSample_def)

lemma returned_getSample:
  assumes "r \<in> {CpuSnapshots, EventLoopSnapshots, MemorySnapshots}"
  shows "returned (getSample r d) s =
           Inr (if falsy d then heap s r else recentSuffix (the d) (heap s r))"
  by (simp add: returned_def getSample_eq [OF assms] recentSuffix_def)

lemma getSample_frame:
  assumes "r \<in> {CpuSnapshots, EventLoopSnapshots, MemorySnapshots}"
  shows "list_all (\<lambda>h. heap (snd (getSample r d s)) h = heap s h) histories"
    and "snd (getSample r d s)\<lparr>heap := heap s, nextSample := nextSample s\<rparr> = s"
  by (simp_all add: getSample_eq [OF assms] histories_def)

lemma histories_EL:
  "list_all (\<lambda>h. heap s' h = heap s h) histories \<Longrightarrow>
   heap s' EventLoopSnapshots = heap s EventLoopSnapshots"
  by (simp add: histories_def)

lemma getSample_history:
  "r \<in> {CpuSnapshots, EventLoopSnapshots, MemorySnapshots} \<Longrightarrow>
   heap (snd (getSample r d s)) EventLoopSnapshots = heap s EventLoopSnapshots"
  by (rule histories_EL) (rule getSample_frame(1))

section \<open>The concrete inputs, evaluated\<close>

lemma exampleSnapshotter_eq:
  "exampleSnapshotter =
     \<lparr> eventLoopSnapshotIntervalMillis = 100,
       memorySnapshotIntervalMillis = 1000,
       snapshotHistoryMillis = 1000,
       maxBlockedMillis = 10,
       minFreeMemoryRatio = 1 / 4,
       maxMemoryBytes = Some 1048576,
       heap = (\<lambda>r. []),
       nextSample = 0,
       trace = [] \<rparr>"
  by (simp add: exampleSnapshotter_def exampleOptions_def Snapshotter_def defaults_def
      default_of_def DEFAULT_OPTIONS_def falsy_def)

lemma startedSnapshotter_eq:
  "startedSnapshotter =
     \<lparr> eventLoopSnapshotIntervalMillis = 100,
       memorySnapshotIntervalMillis = 1000,
       snapshotHistoryMillis = 1000,
       maxBlockedMillis = 10,
       minFreeMemoryRatio = 1 / 4,
       maxMemoryBytes = Some 1048576,
       heap = (\<lambda>r. [])(EventLoopSnapshots := [EventLoopSnapshot 0 False 0]),
       nextSample = 0,
       trace = [SetInterval EventLoopInterval 100, SetInterval MemoryInterval 1000] \<rparr>"
  by (simp add: startedSnapshotter_def start_def exampleSnapshotter_eq falsy_def push_def
      emit_def Let_def)

lemma tickingSnapshotter_eq:
  "tickingSnapshotter =
     \<lparr> eventLoopSnapshotIntervalMillis = 100,
       memorySnapshotIntervalMillis = 1000,
       snapshotHistoryMillis = 1000,
       maxBlockedMillis = 10,
       minFreeMemoryRatio = 1 / 4,
       maxMemoryBytes = Some 1048576,
       heap = (\<lambda>r. [])(EventLoopSnapshots :=
         [EventLoopSnapshot 0 False 0, EventLoopSnapshot 100 False 0,
          EventLoopSnapshot 200 False 0, EventLoopSnapshot 300 False 0]),
       nextSample = 0,
       trace = [SetInterval EventLoopInterval 100, SetInterval MemoryInterval 1000,
                IntervalCallback, IntervalCallback, IntervalCallback] \<rparr>"
  by (simp add: tickingSnapshotter_def run_def startedSnapshotter_eq snapshotEventLoop_eq
      isOld_def Let_def push_def emit_def)

lemma tickingSnapshotter_history:
  "heap tickingSnapshotter EventLoopSnapshots =
     [EventLoopSnapshot 0 False 0, EventLoopSnapshot 100 False 0,
      EventLoopSnapshot 200 False 0, EventLoopSnapshot 300 False 0]"
  by (simp add: tickingSnapshotter_eq)


section \<open>Memory sampling\<close>




text \<open>
  C5. When the memory probe throws during a memory sampling tick, the tick returns normally
  (nothing propagates), the state is the one before the tick except for the trace, so the
  memory history holds no new sample and nothing was pruned, and the trace gained the log
  line followed by the call of the interval callback, which is what keeps the timer running.
\<close>

theorem snapshotMemory_probe_throws:
  "snapshotMemory now (Inl err) s =
     (Inr (),
      s\<lparr>trace := trace s @
         [LogException err ''Snapshotter: Memory snapshot failed.'', IntervalCallback]\<rparr>)"
  by (simp add: snapshotMemory_def tryCatchFinally_def snapshotMemory_try_def
      logException_def intervalCallback_def emit_def)

section \<open>Event-loop sampling\<close>




lemma flagged_new:
  "flaggedIffExceeded (EventLoopSnapshot now (mb < delta) (max (delta - mb) 0))"
  by (auto simp: flaggedIffExceeded_def max_def)

lemma step_preserves_flagged:
  assumes "list_all flaggedIffExceeded (heap s EventLoopSnapshots)"
  shows "list_all flaggedIffExceeded (heap (step op s) EventLoopSnapshots)"
proof (cases op)
  case (Start probe atHome now)
  have "flaggedIffExceeded (EventLoopSnapshot now False 0)"
    by (simp add: flaggedIffExceeded_def)
  with assms start_history [of probe atHome now s] Start show ?thesis
    by auto
next
  case (Stop atHome)
  with assms show ?thesis by (simp add: stop_frame)
next
  case (GetMemorySample d)
  with assms show ?thesis by (simp add: getMemorySample_def getSample_history)
next
  case (GetEventLoopSample d)
  with assms show ?thesis by (simp add: getEventLoopSample_def getSample_history)
next
  case (GetCpuSample d)
  with assms show ?thesis by (simp add: getCpuSample_def getSample_history)
next
  case (SnapshotMemory now probe)
  with assms show ?thesis by (simp add: snapshotMemory_other)
next
  case (SnapshotEventLoop now)
  let ?kept = "dropWhile (isOld (snapshotHistoryMillis s) now) (heap s EventLoopSnapshots)"
  from assms have "list_all flaggedIffExceeded ?kept"
    by (auto simp: list_all_iff dest: set_dropWhileD)
  then have "list_all flaggedIffExceeded (heap (snd (snapshotEventLoop now s)) EventLoopSnapshots)"
    unfolding snapshotEventLoop_history Let_def
    by (simp add: flagged_new del: dropWhile_eq_Nil_conv)
  with SnapshotEventLoop show ?thesis by simp
next
  case (SnapshotCpu ev)
  with assms show ?thesis by (simp add: snapshotCpu_other)
qed

lemma run_preserves_flagged:
  "list_all flaggedIffExceeded (heap s EventLoopSnapshots) \<Longrightarrow>
   list_all flaggedIffExceeded (heap (run ops s) EventLoopSnapshots)"
proof (induction ops arbitrary: s)
  case Nil
  then show ?case by (simp add: run_def)
next
  case (Cons op ops)
  from Cons.IH [OF step_preserves_flagged [OF Cons.prems, of op]]
  show ?case by (simp add: run_def)
qed

text \<open>
  C9. Whatever calls are made on a snapshotter after its construction (\<open>start\<close>, \<open>stop\<close>, the
  sampling operations, the accessors, in any order and with any arguments), every entry of
  the event-loop history, the baseline pushed by \<open>start()\<close> and every sample appended by a
  tick, is an event-loop snapshot with \<open>isOverloaded = (exceededMillis > 0)\<close>.
\<close>

theorem eventLoop_flag_iff_exceeded:
  "list_all flaggedIffExceeded (heap (run ops (Snapshotter opts)) EventLoopSnapshots)"
  by (rule run_preserves_flagged) (simp add: Snapshotter_def Let_def)

theorem eventLoop_flag_iff_exceeded_witness:
  "heap (run [Start (Inr halfUsed) False 0, SnapshotEventLoop 150, SnapshotEventLoop 250]
          (Snapshotter exampleOptions)) EventLoopSnapshots =
     [EventLoopSnapshot 0 False 0, EventLoopSnapshot 150 True 40, EventLoopSnapshot 250 False 0] \<and>
   list_all flaggedIffExceeded
     (heap (run [Start (Inr halfUsed) False 0, SnapshotEventLoop 150, SnapshotEventLoop 250]
          (Snapshotter exampleOptions)) EventLoopSnapshots)"
proof -
  have v: "heap (run [Start (Inr halfUsed) False 0, SnapshotEventLoop 150, SnapshotEventLoop 250]
          (Snapshotter exampleOptions)) EventLoopSnapshots =
     [EventLoopSnapshot 0 False 0, EventLoopSnapshot 150 True 40, EventLoopSnapshot 250 False 0]"
    using startedSnapshotter_eq
    by (simp add: run_def startedSnapshotter_def exampleSnapshotter_def
        snapshotEventLoop_eq isOld_def Let_def push_def emit_def)
  from eventLoop_flag_iff_exceeded
    [of "[Start (Inr halfUsed) False 0, SnapshotEventLoop 150, SnapshotEventLoop 250]" exampleOptions]
    v
  show ?thesis by (intro conjI)
qed

lemma step_keeps_empty:
  assumes "\<not> isStart op" and "heap s EventLoopSnapshots = []"
  shows "heap (step op s) EventLoopSnapshots = []"
proof (cases op)
  case (Start probe atHome now)
  with assms(1) show ?thesis by (simp add: isStart_def)
next
  case (Stop atHome)
  with assms(2) show ?thesis by (simp add: stop_frame)
next
  case (GetMemorySample d)
  with assms(2) show ?thesis by (simp add: getMemorySample_def getSample_history)
next
  case (GetEventLoopSample d)
  with assms(2) show ?thesis by (simp add: getEventLoopSample_def getSample_history)
next
  case (GetCpuSample d)
  with assms(2) show ?thesis by (simp add: getCpuSample_def getSample_history)
next
  case (SnapshotMemory now probe)
  with assms(2) show ?thesis by (simp add: snapshotMemory_other)
next
  case (SnapshotEventLoop now)
  with assms(2) show ?thesis by (simp add: snapshotEventLoop_history)
next
  case (SnapshotCpu ev)
  with assms(2) show ?thesis by (simp add: snapshotCpu_other)
qed

lemma run_keeps_empty:
  "list_all (\<lambda>op. \<not> isStart op) ops \<Longrightarrow> heap s EventLoopSnapshots = [] \<Longrightarrow>
   heap (run ops s) EventLoopSnapshots = []"
proof (induction ops arbitrary: s)
  case Nil
  then show ?case by (simp add: run_def)
next
  case (Cons op ops)
  from Cons.prems have "heap (step op s) EventLoopSnapshots = []"
    by (intro step_keeps_empty) simp_all
  with Cons.IH [of "step op s"] Cons.prems(1) show ?case
    by (simp add: run_def)
qed

text \<open>
  C10. If at an event-loop tick at \<open>now\<close> every retained event-loop snapshot is older than
  \<open>snapshotHistoryMillis\<close> relative to \<open>now\<close>, the tick returns normally, leaves the
  event-loop history empty and appends nothing: the read of the last entry throws a
  \<open>TypeError\<close>, which is caught and logged, and the interval callback is called. After that
  the history stays empty through every further call other than a new \<open>start()\<close>, so no
  later event-loop tick records a sample.
\<close>

theorem eventLoop_gap_empties_history:
  assumes "list_all (isOld (snapshotHistoryMillis s) now) (heap s EventLoopSnapshots)"
    and "list_all (\<lambda>op. \<not> isStart op) ops"
  shows "snapshotEventLoop now s =
           (Inr (),
            s\<lparr>heap := (heap s)(EventLoopSnapshots := []),
              trace := trace s @
                [LogException TypeError ''Snapshotter: Event Loop snapshot failed.'',
                 IntervalCallback]\<rparr>) \<and>
         heap (run ops (snd (snapshotEventLoop now s))) EventLoopSnapshots = []"
proof -
  from assms(1)
  have kept: "dropWhile (isOld (snapshotHistoryMillis s) now) (heap s EventLoopSnapshots) = []"
    by (simp add: list_all_iff)
  then have tick: "snapshotEventLoop now s =
           (Inr (),
            s\<lparr>heap := (heap s)(EventLoopSnapshots := []),
              trace := trace s @
                [LogException TypeError ''Snapshotter: Event Loop snapshot failed.'',
                 IntervalCallback]\<rparr>)"
    by (simp add: snapshotEventLoop_eq Let_def emit_def del: dropWhile_eq_Nil_conv)
  then have "heap (snd (snapshotEventLoop now s)) EventLoopSnapshots = []"
    by simp
  with assms(2) have "heap (run ops (snd (snapshotEventLoop now s))) EventLoopSnapshots = []"
    by (rule run_keeps_empty)
  with tick show ?thesis by (intro conjI)
qed

theorem eventLoop_gap_empties_history_witness:
  "list_all (isOld (snapshotHistoryMillis tickingSnapshotter) 5000)
     (heap tickingSnapshotter EventLoopSnapshots) \<and>
   list_all (\<lambda>op. \<not> isStart op)
     [SnapshotEventLoop 5100, SnapshotEventLoop 5200, SnapshotMemory 5300 (Inr halfUsed),
      GetEventLoopSample None] \<and>
   heap tickingSnapshotter EventLoopSnapshots \<noteq> [] \<and>
   fst (snapshotEventLoop 5000 tickingSnapshotter) = Inr () \<and>
   heap (snd (snapshotEventLoop 5000 tickingSnapshotter)) EventLoopSnapshots = [] \<and>
   heap (run [SnapshotEventLoop 5100, SnapshotEventLoop 5200, SnapshotMemory 5300 (Inr halfUsed),
              GetEventLoopSample None]
          (snd (snapshotEventLoop 5000 tickingSnapshotter))) EventLoopSnapshots = []"
proof -
  have old: "list_all (isOld (snapshotHistoryMillis tickingSnapshotter) 5000)
     (heap tickingSnapshotter EventLoopSnapshots)"
    by (simp add: tickingSnapshotter_eq isOld_def)
  have ns: "list_all (\<lambda>op. \<not> isStart op)
     [SnapshotEventLoop 5100, SnapshotEventLoop 5200, SnapshotMemory 5300 (Inr halfUsed),
      GetEventLoopSample None]"
    by (simp add: isStart_def)
  have ne: "heap tickingSnapshotter EventLoopSnapshots \<noteq> []"
    by (simp add: tickingSnapshotter_history)
  note th = eventLoop_gap_empties_history [OF old ns]
  from th have a: "fst (snapshotEventLoop 5000 tickingSnapshotter) = Inr ()"
    and b: "heap (snd (snapshotEventLoop 5000 tickingSnapshotter)) EventLoopSnapshots = []"
    by simp_all
  from th have c: "heap (run [SnapshotEventLoop 5100, SnapshotEventLoop 5200,
              SnapshotMemory 5300 (Inr halfUsed), GetEventLoopSample None]
          (snd (snapshotEventLoop 5000 tickingSnapshotter))) EventLoopSnapshots = []"
    by (rule conjunct2)
  from old ns ne a b c show ?thesis by (intro conjI)
qed

section \<open>The read accessors\<close>

text \<open>The longest recent suffix, characterised.\<close>

lemma recentSuffix_char:
  "\<exists>older. xs = older @ recentSuffix d xs \<and>
     list_all (isRecent (createdAt (last xs)) d) (recentSuffix d xs) \<and>
     (older = [] \<or> \<not> isRecent (createdAt (last xs)) d (last older))"
proof -
  let ?P = "isRecent (createdAt (last xs)) d"
  let ?older = "rev (dropWhile ?P (rev xs))"
  have "rev (takeWhile ?P (rev xs) @ dropWhile ?P (rev xs)) = xs"
    by (simp only: takeWhile_dropWhile_id rev_rev_ident)
  then have "?older @ rev (takeWhile ?P (rev xs)) = xs"
    by (simp only: rev_append)
  then have split: "xs = ?older @ recentSuffix d xs"
    by (simp only: recentSuffix_def)
  have all: "list_all ?P (recentSuffix d xs)"
    by (auto simp: recentSuffix_def list_all_iff dest: set_takeWhileD)
  have "?older \<noteq> [] \<Longrightarrow> \<not> ?P (last ?older)"
    using hd_dropWhile [of ?P "rev xs"] by (simp add: last_rev)
  then have "?older = [] \<or> \<not> ?P (last ?older)" by blast
  with split all show ?thesis by blast
qed

lemma sorted_takeWhile_rev_filter:
  assumes "sorted (map createdAt xs)"
  shows "rev (takeWhile (isRecent t d) (rev xs)) = filter (isRecent t d) xs"
  using assms
proof (induction xs rule: rev_induct)
  case Nil
  then show ?case by simp
next
  case (snoc x xs)
  from snoc.prems have srt: "sorted (map createdAt xs)"
    and le: "\<forall>y \<in> set xs. createdAt y \<le> createdAt x"
    by (auto simp: sorted_append)
  show ?case
  proof (cases "isRecent t d x")
    case True
    with snoc.IH [OF srt] show ?thesis by simp
  next
    case False
    have "\<forall>y \<in> set xs. \<not> isRecent t d y"
    proof
      fix y assume "y \<in> set xs"
      with le have "createdAt y \<le> createdAt x" by blast
      then have "(of_int (t - createdAt x) :: rat) \<le> of_int (t - createdAt y)" by simp
      with False show "\<not> isRecent t d y" by (simp add: isRecent_def)
    qed
    then have "filter (isRecent t d) xs = []" by (simp add: filter_empty_conv)
    with False show ?thesis by simp
  qed
qed

lemma recentSuffix_filter:
  "nonDecreasing xs \<Longrightarrow> recentSuffix d xs = filter (isRecent (createdAt (last xs)) d) xs"
  by (simp add: nonDecreasing_def recentSuffix_def sorted_takeWhile_rev_filter)

text \<open>
  C3. For each of \<open>getMemorySample\<close>, \<open>getEventLoopSample\<close> and \<open>getCpuSample\<close>, with \<open>r\<close> the
  history it reads, in every state: the call never throws; with the duration absent or zero
  it returns the whole history; on an empty history it returns an empty array; and for a
  duration \<open>x > 0\<close> it returns the longest suffix of the history whose entries all lie within
  \<open>x\<close> milliseconds of the last entry's \<open>createdAt\<close> (\<open>recentSuffix\<close>, characterised in
  \<open>recentSuffix_char\<close>), which on a history with non-decreasing \<open>createdAt\<close> is exactly the
  entries within \<open>x\<close> milliseconds of the most recent one.
\<close>

theorem getSample_returns_suffix:
  assumes "(acc, r) \<in> set accessors"
  shows "(falsy d \<longrightarrow> returned (acc d) s = Inr (heap s r)) \<and>
         (heap s r = [] \<longrightarrow> returned (acc d) s = Inr []) \<and>
         (0 < x \<longrightarrow>
            returned (acc (Some x)) s = Inr (recentSuffix x (heap s r)) \<and>
            (nonDecreasing (heap s r) \<longrightarrow>
               returned (acc (Some x)) s =
                 Inr (filter (isRecent (createdAt (last (heap s r))) x) (heap s r))))"
proof -
  from assms have acc: "acc = getSample r"
    and r: "r \<in> {CpuSnapshots, EventLoopSnapshots, MemorySnapshots}"
    by (auto dest: accessors_cases)
  have 1: "falsy d \<longrightarrow> returned (acc d) s = Inr (heap s r)"
    by (simp add: acc returned_getSample [OF r])
  have 2: "heap s r = [] \<longrightarrow> returned (acc d) s = Inr []"
    by (simp add: acc returned_getSample [OF r] recentSuffix_def)
  have 3: "0 < x \<longrightarrow> returned (acc (Some x)) s = Inr (recentSuffix x (heap s r))"
    by (simp add: acc returned_getSample [OF r] falsy_def)
  have 4: "0 < x \<longrightarrow> nonDecreasing (heap s r) \<longrightarrow>
      returned (acc (Some x)) s =
        Inr (filter (isRecent (createdAt (last (heap s r))) x) (heap s r))"
    using 3 by (simp add: recentSuffix_filter)
  from 1 2 3 4 show ?thesis by blast
qed

theorem getSample_returns_suffix_witness:
  "(getEventLoopSample, EventLoopSnapshots) \<in> set accessors \<and>
   falsy None \<and>
   returned (getEventLoopSample None) tickingSnapshotter =
     Inr [EventLoopSnapshot 0 False 0, EventLoopSnapshot 100 False 0,
          EventLoopSnapshot 200 False 0, EventLoopSnapshot 300 False 0] \<and>
   (0::rat) < 150 \<and>
   nonDecreasing (heap tickingSnapshotter EventLoopSnapshots) \<and>
   returned (getEventLoopSample (Some 150)) tickingSnapshotter =
     Inr [EventLoopSnapshot 200 False 0, EventLoopSnapshot 300 False 0] \<and>
   (getCpuSample, CpuSnapshots) \<in> set accessors \<and>
   heap tickingSnapshotter CpuSnapshots = [] \<and>
   returned (getCpuSample (Some 150)) tickingSnapshotter = Inr []"
proof -
  have el: "(getEventLoopSample, EventLoopSnapshots) \<in> set accessors"
    and cpu: "(getCpuSample, CpuSnapshots) \<in> set accessors"
    by (simp_all add: accessors_def)
  have f: "falsy None" by (simp add: falsy_def)
  have pos: "(0::rat) < 150" by simp
  have nd: "nonDecreasing (heap tickingSnapshotter EventLoopSnapshots)"
    by (simp add: tickingSnapshotter_eq nonDecreasing_def)
  have empty: "heap tickingSnapshotter CpuSnapshots = []"
    by (simp add: tickingSnapshotter_eq)
  note th = getSample_returns_suffix [OF el, of None tickingSnapshotter 150]
  from th f have "returned (getEventLoopSample None) tickingSnapshotter =
      Inr (heap tickingSnapshotter EventLoopSnapshots)"
    by blast
  then have a: "returned (getEventLoopSample None) tickingSnapshotter =
     Inr [EventLoopSnapshot 0 False 0, EventLoopSnapshot 100 False 0,
          EventLoopSnapshot 200 False 0, EventLoopSnapshot 300 False 0]"
    by (simp only: tickingSnapshotter_history)
  from th pos nd have "returned (getEventLoopSample (Some 150)) tickingSnapshotter =
      Inr (filter (isRecent (createdAt (last (heap tickingSnapshotter EventLoopSnapshots))) 150)
             (heap tickingSnapshotter EventLoopSnapshots))"
    by blast
  then have b: "returned (getEventLoopSample (Some 150)) tickingSnapshotter =
     Inr [EventLoopSnapshot 200 False 0, EventLoopSnapshot 300 False 0]"
    by (simp add: tickingSnapshotter_history isRecent_def)
  from getSample_returns_suffix [OF cpu, of "Some 150" tickingSnapshotter 150] empty
  have c: "returned (getCpuSample (Some 150)) tickingSnapshotter = Inr []"
    by blast
  from el f a pos nd b cpu empty c show ?thesis by (intro conjI)
qed

lemma spaced_recentSuffix:
  assumes "spacedAtLeast i xs" and "0 \<le> d" and "d < i" and "xs \<noteq> []"
  shows "recentSuffix d xs = [last xs]"
proof -
  from \<open>xs \<noteq> []\<close> obtain ys y where xs: "xs = ys @ [y]"
    by (metis rev_exhaust)
  have "takeWhile (isRecent (createdAt y) d) (rev ys) = []"
  proof (cases ys rule: rev_cases)
    case Nil
    then show ?thesis by simp
  next
    case (snoc zs z)
    with assms(1) xs have "i \<le> of_int (createdAt y - createdAt z)"
      by (simp add: spacedAtLeast_def successively_append_iff)
    with \<open>d < i\<close> have "\<not> isRecent (createdAt y) d z"
      by (simp add: isRecent_def)
    with snoc show ?thesis by simp
  qed
  with \<open>0 \<le> d\<close> show ?thesis
    by (simp add: xs recentSuffix_def isRecent_def)
qed

text \<open>
  C6. When consecutive entries of the event-loop history are at least
  \<open>eventLoopSnapshotIntervalMillis\<close> apart, \<open>getEventLoopSample(d)\<close> with
  \<open>0 < d < eventLoopSnapshotIntervalMillis\<close> returns at most one entry: the most recent one,
  or nothing when the history is empty.
\<close>

theorem getEventLoopSample_below_interval:
  assumes "spacedAtLeast (eventLoopSnapshotIntervalMillis s) (heap s EventLoopSnapshots)"
    and "0 < d" and "d < eventLoopSnapshotIntervalMillis s"
  shows "returned (getEventLoopSample (Some d)) s =
           Inr (if heap s EventLoopSnapshots = [] then []
                else [last (heap s EventLoopSnapshots)])"
proof (cases "heap s EventLoopSnapshots = []")
  case True
  then show ?thesis
    using \<open>0 < d\<close>
    by (simp add: getEventLoopSample_def returned_getSample falsy_def recentSuffix_def)
next
  case False
  with assms have "recentSuffix d (heap s EventLoopSnapshots) = [last (heap s EventLoopSnapshots)]"
    by (intro spaced_recentSuffix) simp_all
  with False \<open>0 < d\<close> show ?thesis
    by (simp add: getEventLoopSample_def returned_getSample falsy_def)
qed

theorem getEventLoopSample_below_interval_witness:
  "spacedAtLeast (eventLoopSnapshotIntervalMillis tickingSnapshotter)
     (heap tickingSnapshotter EventLoopSnapshots) \<and>
   (0::rat) < 50 \<and> 50 < eventLoopSnapshotIntervalMillis tickingSnapshotter \<and>
   returned (getEventLoopSample (Some 50)) tickingSnapshotter =
     Inr [EventLoopSnapshot 300 False 0]"
proof -
  have sp: "spacedAtLeast (eventLoopSnapshotIntervalMillis tickingSnapshotter)
     (heap tickingSnapshotter EventLoopSnapshots)"
    by (simp add: tickingSnapshotter_eq spacedAtLeast_def)
  have pos: "(0::rat) < 50" by simp
  have lt: "50 < eventLoopSnapshotIntervalMillis tickingSnapshotter"
    by (simp add: tickingSnapshotter_eq)
  from getEventLoopSample_below_interval [OF sp pos lt]
  have "returned (getEventLoopSample (Some 50)) tickingSnapshotter =
     Inr [EventLoopSnapshot 300 False 0]"
    by (simp add: tickingSnapshotter_history)
  with sp pos lt show ?thesis by (intro conjI)
qed

text \<open>
  C7, as the code has it. A read accessor leaves the three histories exactly as they were,
  for every duration, and changes nothing else of the snapshotter either (the array it may
  allocate for its result is a new one). More generally every call that is neither a
  sampling operation nor \<open>start()\<close>, that is \<open>stop()\<close> and the three accessors, leaves the
  three histories unchanged: the histories are mutated only by the sampling operations and by
  \<open>start()\<close>.
\<close>

theorem accessors_leave_histories:
  "((acc, r) \<in> set accessors \<longrightarrow>
      list_all (\<lambda>h. heap (snd (acc d s)) h = heap s h) histories \<and>
      snd (acc d s)\<lparr>heap := heap s, nextSample := nextSample s\<rparr> = s) \<and>
   (\<not> isSampling op \<and> \<not> isStart op \<longrightarrow>
      list_all (\<lambda>h. heap (step op s) h = heap s h) histories)"
proof (intro conjI impI)
  assume "(acc, r) \<in> set accessors"
  then have acc: "acc = getSample r"
    and r: "r \<in> {CpuSnapshots, EventLoopSnapshots, MemorySnapshots}"
    by (auto dest: accessors_cases)
  show "list_all (\<lambda>h. heap (snd (acc d s)) h = heap s h) histories"
    unfolding acc by (rule getSample_frame(1) [OF r])
  show "snd (acc d s)\<lparr>heap := heap s, nextSample := nextSample s\<rparr> = s"
    unfolding acc by (rule getSample_frame(2) [OF r])
next
  assume "\<not> isSampling op \<and> \<not> isStart op"
  then show "list_all (\<lambda>h. heap (step op s) h = heap s h) histories"
  proof (cases op)
    case (Stop atHome)
    then show ?thesis by (simp add: stop_frame histories_def)
  next
    case (GetMemorySample d')
    then show ?thesis by (simp add: getMemorySample_def getSample_frame(1))
  next
    case (GetEventLoopSample d')
    then show ?thesis by (simp add: getEventLoopSample_def getSample_frame(1))
  next
    case (GetCpuSample d')
    then show ?thesis by (simp add: getCpuSample_def getSample_frame(1))
  qed (simp_all add: isSampling_def isStart_def)
qed

theorem accessors_leave_histories_witness:
  "(getMemorySample, MemorySnapshots) \<in> set accessors \<and>
   list_all (\<lambda>h. heap (snd (getMemorySample (Some 150) tickingSnapshotter)) h =
                  heap tickingSnapshotter h) histories \<and>
   snd (getMemorySample (Some 150) tickingSnapshotter)
     \<lparr>heap := heap tickingSnapshotter, nextSample := nextSample tickingSnapshotter\<rparr> =
     tickingSnapshotter \<and>
   \<not> isSampling (GetEventLoopSample (Some 150)) \<and>
   \<not> isStart (GetEventLoopSample (Some 150)) \<and>
   list_all (\<lambda>h. heap (step (GetEventLoopSample (Some 150)) tickingSnapshotter) h =
                  heap tickingSnapshotter h) histories"
proof -
  have m: "(getMemorySample, MemorySnapshots) \<in> set accessors"
    by (simp add: accessors_def)
  have n: "\<not> isSampling (GetEventLoopSample (Some 150)) \<and>
           \<not> isStart (GetEventLoopSample (Some 150))"
    by (simp add: isSampling_def isStart_def)
  show ?thesis
    using accessors_leave_histories
      [of getMemorySample MemorySnapshots "Some 150" tickingSnapshotter
          "GetEventLoopSample (Some 150)"] m n
    by blast
qed

text \<open>
  C7 as stated fails in its last clause: \<open>start()\<close> is not a sampling operation, and it
  mutates the event-loop history by pushing the baseline sample.
\<close>

theorem start_mutates_history_counterexample:
  "\<not> isSampling (Start (Inr halfUsed) False 0) \<and>
   heap exampleSnapshotter EventLoopSnapshots = [] \<and>
   heap (step (Start (Inr halfUsed) False 0) exampleSnapshotter) EventLoopSnapshots =
     [EventLoopSnapshot 0 False 0]"
  by (simp add: isSampling_def exampleSnapshotter_eq start_def falsy_def push_def emit_def Let_def)

section \<open>History pruning\<close>

lemma kept_not_old:
  "sorted (map createdAt xs) \<Longrightarrow> y \<in> set (dropWhile (isOld h now) xs) \<Longrightarrow> \<not> isOld h now y"
proof (induction xs)
  case Nil
  then show ?case by simp
next
  case (Cons x xs)
  show ?case
  proof (cases "isOld h now x")
    case True
    with Cons show ?thesis by simp
  next
    case False
    with Cons.prems(2) have "y = x \<or> y \<in> set xs" by simp
    then show ?thesis
    proof
      assume "y = x"
      with False show ?thesis by simp
    next
      assume "y \<in> set xs"
      with Cons.prems(1) have "createdAt x \<le> createdAt y" by simp
      then have "(of_int (now - createdAt y) :: rat) \<le> of_int (now - createdAt x)" by simp
      with False show ?thesis by (simp add: isOld_def)
    qed
  qed
qed

lemma noneOlderThan_after_prune:
  assumes "nonDecreasing xs" and "0 \<le> h" and "createdAt e = now"
  shows "noneOlderThan h (dropWhile (isOld h now) xs @ [e])"
proof -
  have "of_int (now - createdAt y) \<le> h" if "y \<in> set (dropWhile (isOld h now) xs)" for y
  proof -
    from assms(1) that have "\<not> isOld h now y"
      unfolding nonDecreasing_def by (rule kept_not_old)
    then show ?thesis by (simp add: isOld_def)
  qed
  with assms(2,3) show ?thesis
    by (simp add: noneOlderThan_def list_all_iff)
qed

text \<open>
  C4. Let the history window be non-negative. After \<open>_snapshotMemory\<close> (with a successful
  probe), \<open>_snapshotEventLoop\<close> or \<open>_snapshotCpu\<close> has run on a history whose \<open>createdAt\<close>
  values are non-decreasing, no entry of that history is older than \<open>snapshotHistoryMillis\<close>
  relative to its newest entry, the sample just appended. (An event-loop tick that appends
  nothing leaves an empty history.)
\<close>

theorem sampling_prunes_history:
  assumes "0 \<le> snapshotHistoryMillis s"
  shows "(nonDecreasing (heap s MemorySnapshots) \<longrightarrow>
            noneOlderThan (snapshotHistoryMillis s)
              (heap (snd (snapshotMemory now (Inr mi) s)) MemorySnapshots)) \<and>
         (nonDecreasing (heap s EventLoopSnapshots) \<longrightarrow>
            noneOlderThan (snapshotHistoryMillis s)
              (heap (snd (snapshotEventLoop now s)) EventLoopSnapshots)) \<and>
         (nonDecreasing (heap s CpuSnapshots) \<longrightarrow>
            noneOlderThan (snapshotHistoryMillis s)
              (heap (snd (snapshotCpu ev s)) CpuSnapshots))"
proof (intro conjI impI)
  assume nd: "nonDecreasing (heap s MemorySnapshots)"
  show "noneOlderThan (snapshotHistoryMillis s)
          (heap (snd (snapshotMemory now (Inr mi) s)) MemorySnapshots)"
    using nd assms
    by (simp add: snapshotMemory_probe_ok push_def emit_def noneOlderThan_after_prune)
next
  assume nd: "nonDecreasing (heap s EventLoopSnapshots)"
  show "noneOlderThan (snapshotHistoryMillis s)
          (heap (snd (snapshotEventLoop now s)) EventLoopSnapshots)"
  proof (cases "dropWhile (isOld (snapshotHistoryMillis s) now) (heap s EventLoopSnapshots) = []")
    case True
    then show ?thesis
      by (simp add: snapshotEventLoop_eq Let_def emit_def noneOlderThan_def
          del: dropWhile_eq_Nil_conv)
  next
    case False
    with nd assms show ?thesis
      by (simp add: snapshotEventLoop_eq Let_def push_def emit_def noneOlderThan_after_prune
          del: dropWhile_eq_Nil_conv)
  qed
next
  assume nd: "nonDecreasing (heap s CpuSnapshots)"
  show "noneOlderThan (snapshotHistoryMillis s) (heap (snd (snapshotCpu ev s)) CpuSnapshots)"
    using nd assms
    by (simp add: snapshotCpu_eq push_def noneOlderThan_after_prune)
qed

theorem sampling_prunes_history_witness:
  "0 \<le> snapshotHistoryMillis tickingSnapshotter \<and>
   nonDecreasing (heap tickingSnapshotter MemorySnapshots) \<and>
   nonDecreasing (heap tickingSnapshotter EventLoopSnapshots) \<and>
   nonDecreasing (heap tickingSnapshotter CpuSnapshots) \<and>
   heap (snd (snapshotEventLoop 1150 tickingSnapshotter)) EventLoopSnapshots =
     [EventLoopSnapshot 200 False 0, EventLoopSnapshot 300 False 0,
      EventLoopSnapshot 1150 True 740] \<and>
   noneOlderThan (snapshotHistoryMillis tickingSnapshotter)
     (heap (snd (snapshotMemory 1150 (Inr halfUsed) tickingSnapshotter)) MemorySnapshots) \<and>
   noneOlderThan (snapshotHistoryMillis tickingSnapshotter)
     (heap (snd (snapshotEventLoop 1150 tickingSnapshotter)) EventLoopSnapshots) \<and>
   noneOlderThan (snapshotHistoryMillis tickingSnapshotter)
     (heap (snd (snapshotCpu \<lparr>cpuCreatedAt = 1150, isCpuOverloaded = False\<rparr> tickingSnapshotter))
        CpuSnapshots)"
proof -
  have h: "0 \<le> snapshotHistoryMillis tickingSnapshotter"
    by (simp add: tickingSnapshotter_eq)
  have m: "nonDecreasing (heap tickingSnapshotter MemorySnapshots)"
    and e: "nonDecreasing (heap tickingSnapshotter EventLoopSnapshots)"
    and c: "nonDecreasing (heap tickingSnapshotter CpuSnapshots)"
    by (simp_all add: tickingSnapshotter_eq nonDecreasing_def)
  have v: "heap (snd (snapshotEventLoop 1150 tickingSnapshotter)) EventLoopSnapshots =
     [EventLoopSnapshot 200 False 0, EventLoopSnapshot 300 False 0,
      EventLoopSnapshot 1150 True 740]"
    by (simp add: tickingSnapshotter_eq snapshotEventLoop_eq isOld_def Let_def push_def emit_def)
  from sampling_prunes_history
    [OF h, of 1150 halfUsed "\<lparr>cpuCreatedAt = 1150, isCpuOverloaded = False\<rparr>"] h m e c v
  show ?thesis by blast
qed

section \<open>The concurrency target of the AutoscaledPool\<close>

lemma autoscale_bounds:
  assumes "minConcurrency p \<le> desiredConcurrency p" and "desiredConcurrency p \<le> maxConcurrency p"
  shows "minConcurrency (autoscale a b c d u n p) = minConcurrency p"
    and "maxConcurrency (autoscale a b c d u n p) = maxConcurrency p"
    and "minConcurrency p \<le> desiredConcurrency (autoscale a b c d u n p)"
    and "desiredConcurrency (autoscale a b c d u n p) \<le> maxConcurrency p"
  using assms by (simp_all add: autoscale_def)

lemma poolStep_bounds:
  assumes "minConcurrency p \<le> desiredConcurrency p" and "desiredConcurrency p \<le> maxConcurrency p"
  shows "minConcurrency (poolStep ev p) = minConcurrency p \<and>
         maxConcurrency (poolStep ev p) = maxConcurrency p \<and>
         minConcurrency p \<le> desiredConcurrency (poolStep ev p) \<and>
         desiredConcurrency (poolStep ev p) \<le> maxConcurrency p"
  using assms by (cases ev) (simp_all add: autoscale_bounds)

lemma poolRun_bounds:
  assumes "minConcurrency p \<le> desiredConcurrency p" and "desiredConcurrency p \<le> maxConcurrency p"
  shows "minConcurrency (poolRun evs p) = minConcurrency p \<and>
         maxConcurrency (poolRun evs p) = maxConcurrency p \<and>
         minConcurrency p \<le> desiredConcurrency (poolRun evs p) \<and>
         desiredConcurrency (poolRun evs p) \<le> maxConcurrency p"
  using assms
proof (induction evs arbitrary: p)
  case Nil
  then show ?case by (simp add: poolRun_def)
next
  case (Cons ev evs)
  from poolStep_bounds [OF Cons.prems, of ev]
  have st: "minConcurrency (poolStep ev p) = minConcurrency p"
    "maxConcurrency (poolStep ev p) = maxConcurrency p"
    "minConcurrency p \<le> desiredConcurrency (poolStep ev p)"
    "desiredConcurrency (poolStep ev p) \<le> maxConcurrency p"
    by simp_all
  from Cons.IH [of "poolStep ev p"] st
  show ?case by (simp add: poolRun_def)
qed

text \<open>
  C8. For an AutoscaledPool constructed with \<open>minConcurrency \<le> maxConcurrency\<close>, after any
  sequence of autoscaling ticks (whatever the samples made the idle verdicts, and whatever
  the step sizes), task launches, completions, pauses, resumes and aborts,
  \<open>desiredConcurrency\<close> lies in the closed interval from \<open>minConcurrency\<close> to
  \<open>maxConcurrency\<close>.
\<close>

theorem desiredConcurrency_within_bounds:
  assumes "minC \<le> maxC"
  shows "minC \<le> desiredConcurrency (poolRun evs (AutoscaledPool minC maxC)) \<and>
         desiredConcurrency (poolRun evs (AutoscaledPool minC maxC)) \<le> maxC"
  using assms poolRun_bounds [of "AutoscaledPool minC maxC" evs]
  by (simp add: AutoscaledPool_def)

theorem desiredConcurrency_within_bounds_witness:
  "(1::int) \<le> 10 \<and>
   1 \<le> desiredConcurrency (poolRun
       [AutoscaleTick True True True 1 4 0, TaskLaunch True, AutoscaleTick True True True 1 4 0,
        AutoscaleTick True True True 1 4 0, AutoscaleTick False True True 20 4 0]
       (AutoscaledPool 1 10)) \<and>
   desiredConcurrency (poolRun
       [AutoscaleTick True True True 1 4 0, TaskLaunch True, AutoscaleTick True True True 1 4 0,
        AutoscaleTick True True True 1 4 0, AutoscaleTick False True True 20 4 0]
       (AutoscaledPool 1 10)) \<le> 10"
proof -
  have h: "(1::int) \<le> 10" by simp
  from desiredConcurrency_within_bounds [OF h] h show ?thesis by blast
qed

end
